theory Spec2Isabelle
  imports Complex_Main
begin

section \<open>Forest-fire cellular automaton: data model\<close>

text \<open>
  Cell states are the integers of the source: 0 = empty, 1 = tree, 2 = fire.
  A grid is a list of rows, as the two-dimensional numpy array of the source.
  Coordinates and sizes are Python integers, hence \<open>int\<close>.
  Every read \<open>grid[x, y]\<close> of the source is inside \<open>range(grid_size)\<close> or behind
  the guard \<open>0 <= i < grid_size\<close>, so on a grid of shape \<open>grid_size \<times> grid_size\<close>
  no index is out of range.
\<close>

type_synonym grid = "int list list"

definition cell :: "grid \<Rightarrow> int \<Rightarrow> int \<Rightarrow> int" where
  "cell g x y = g ! nat x ! nat y"

definition set_cell :: "grid \<Rightarrow> int \<Rightarrow> int \<Rightarrow> int \<Rightarrow> grid" where
  "set_cell g x y v = g[nat x := (g ! nat x)[nat y := v]]"

definition wf_grid :: "int \<Rightarrow> grid \<Rightarrow> bool" where
  "wf_grid n g \<longleftrightarrow> length g = nat n \<and> (\<forall>row \<in> set g. length row = nat n)"

definition in_grid :: "int \<Rightarrow> int \<times> int \<Rightarrow> bool" where
  "in_grid n c \<longleftrightarrow> 0 \<le> fst c \<and> fst c < n \<and> 0 \<le> snd c \<and> snd c < n"

text \<open>\<open>for x in range(n): for y in range(n)\<close>: the cells in row-major order.\<close>

definition cells :: "int \<Rightarrow> (int \<times> int) list" where
  "cells n = List.product [0..n - 1] [0..n - 1]"

text \<open>\<open>np.sum(grid == v)\<close>\<close>

definition count_cells :: "grid \<Rightarrow> int \<Rightarrow> int" where
  "count_cells g v = sum_list (map (\<lambda>row. int (length (filter (\<lambda>c. c = v) row))) g)"

text \<open>The two neighbourhoods, in the order the source lists the offsets.\<close>

definition von_neumann :: "(int \<times> int) list" where
  "von_neumann = [(-1, 0), (1, 0), (0, -1), (0, 1)]"

definition moore :: "(int \<times> int) list" where
  "moore = [(-1, -1), (-1, 0), (-1, 1), (0, -1), (0, 1), (1, -1), (1, 0), (1, 1)]"

text \<open>
  The inner loop over the offsets: the first in-bounds neighbour that burns in the
  old grid sets the cell of the new grid on fire and leaves the loop (\<open>break\<close>).
\<close>

fun spread :: "(int \<times> int) list \<Rightarrow> int \<Rightarrow> grid \<Rightarrow> int \<Rightarrow> int \<Rightarrow> grid \<Rightarrow> grid" where
  "spread [] n g x y new_grid = new_grid"
| "spread ((dx, dy) # rest) n g x y new_grid =
     (let nx = x + dx; ny = y + dy in
      if 0 \<le> nx \<and> nx < n \<and> 0 \<le> ny \<and> ny < n \<and> cell g nx ny = 2
      then set_cell new_grid x y 2
      else spread rest n g x y new_grid)"

text \<open>
  The random generator is a stream of draws \<open>rnd\<close> together with the number \<open>k\<close> of
  draws taken so far: \<open>random.random()\<close> returns \<open>rnd k\<close> and moves to \<open>k + 1\<close>.
  A draw is compared exactly with the probability, so it is a \<open>real\<close>.
\<close>

type_synonym rng = "nat \<Rightarrow> real"

subsection \<open>FF.py: class ForestFireModel\<close>

record ForestFireModel =
  grid_size :: int
  p_tree :: real
  p_fire :: real
  grid :: grid

datatype error = ValueError

text \<open>
  \<open>__init__\<close> checks nothing itself; \<open>np.zeros((grid_size, grid_size))\<close> raises
  ValueError for a negative dimension and returns an empty array for 0.
\<close>

definition ForestFireModel_init :: "int \<Rightarrow> real \<Rightarrow> real \<Rightarrow> error + ForestFireModel" where
  "ForestFireModel_init n pt pf =
     (if n < 0 then Inl ValueError
      else Inr \<lparr>grid_size = n, p_tree = pt, p_fire = pf,
                grid = replicate (nat n) (replicate (nat n) 0)\<rparr>)"

text \<open>The body of the double loop of \<open>ForestFireModel.step\<close> at one cell.\<close>

fun model_visit ::
  "int \<Rightarrow> real \<Rightarrow> real \<Rightarrow> grid \<Rightarrow> rng \<Rightarrow> grid \<times> nat \<Rightarrow> int \<times> int \<Rightarrow> grid \<times> nat" where
  "model_visit n pt pf g rnd (new_grid, k) (x, y) =
     (if cell g x y = 0 then
        (if rnd k < pt then (set_cell new_grid x y 1, Suc k) else (new_grid, Suc k))
      else if cell g x y = 1 then
        (if rnd k < pf then (set_cell new_grid x y 2, Suc k)
         else (spread von_neumann n g x y new_grid, Suc k))
      else if cell g x y = 2 then (set_cell new_grid x y 0, k)
      else (new_grid, k))"

definition ForestFireModel_step :: "rng \<Rightarrow> ForestFireModel \<times> nat \<Rightarrow> ForestFireModel \<times> nat" where
  "ForestFireModel_step rnd sk =
     (let s = fst sk; k = snd sk;
          r = foldl (model_visit (grid_size s) (p_tree s) (p_fire s) (grid s) rnd)
                (grid s, k) (cells (grid_size s))
      in (s\<lparr>grid := fst r\<rparr>, snd r))"

subsection \<open>FFGamePlots.py: class ForestFireGame\<close>

text \<open>
  The game class has the four fields of the model class and its own; the record extends
  the first one. A percentage is \<open>None\<close> where numpy divides by a zero cell total.
\<close>

record ForestFireGame = ForestFireModel +
  player_pos :: "int \<times> int"
  extinguished :: int
  burned :: int
  extinguish_overlay :: grid
  time_step :: int
  burned_history :: "int list"
  extinguished_history :: "int list"
  trees_history :: "int list"
  fire_percent_history :: "real option list"
  tree_percent_history :: "real option list"

definition ForestFireGame_init :: "int \<Rightarrow> real \<Rightarrow> real \<Rightarrow> error + ForestFireGame" where
  "ForestFireGame_init n pt pf =
     (if n < 0 then Inl ValueError
      else Inr \<lparr>grid_size = n, p_tree = pt, p_fire = pf,
                grid = replicate (nat n) (replicate (nat n) 0),
                player_pos = (n div 2, n div 2),
                extinguished = 0, burned = 0,
                extinguish_overlay = replicate (nat n) (replicate (nat n) 0),
                time_step = 0,
                burned_history = [], extinguished_history = [], trees_history = [],
                fire_percent_history = [], tree_percent_history = []\<rparr>)"

text \<open>The body of the double loop of \<open>ForestFireGame.step\<close> at one cell.\<close>

fun game_visit ::
  "int \<Rightarrow> real \<Rightarrow> real \<Rightarrow> grid \<Rightarrow> rng \<Rightarrow> grid \<times> int \<times> nat \<Rightarrow> int \<times> int
     \<Rightarrow> grid \<times> int \<times> nat" where
  "game_visit n pt pf g rnd (new_grid, b, k) (x, y) =
     (if cell g x y = 0 then
        (if rnd k < pt then (set_cell new_grid x y 1, b, Suc k) else (new_grid, b, Suc k))
      else if cell g x y = 1 then
        (if rnd k < pf then (set_cell new_grid x y 2, b, Suc k)
         else (spread moore n g x y new_grid, b, Suc k))
      else if cell g x y = 2 then (set_cell new_grid x y 0, b + 1, k)
      else (new_grid, b, k))"

definition decay :: "grid \<Rightarrow> grid" where
  "decay ov = map (map (\<lambda>v. if v > 0 then v - 1 else v)) ov"

definition percent :: "int \<Rightarrow> int \<Rightarrow> real option" where
  "percent c total_cells =
     (if total_cells = 0 then None
      else Some (real_of_int c / real_of_int total_cells * 100))"

definition ForestFireGame_step :: "rng \<Rightarrow> ForestFireGame \<times> nat \<Rightarrow> ForestFireGame \<times> nat" where
  "ForestFireGame_step rnd sk =
     (let s = fst sk; k = snd sk;
          r = foldl (game_visit (grid_size s) (p_tree s) (p_fire s) (grid s) rnd)
                (grid s, burned s, k) (cells (grid_size s));
          new_grid = fst r; b = fst (snd r);
          total_cells = grid_size s * grid_size s
      in (s\<lparr>grid := new_grid,
            burned := b,
            extinguish_overlay := decay (extinguish_overlay s),
            time_step := time_step s + 1,
            burned_history := burned_history s @ [b],
            extinguished_history := extinguished_history s @ [extinguished s],
            trees_history := trees_history s @ [count_cells new_grid 1],
            fire_percent_history :=
              fire_percent_history s @ [percent (count_cells new_grid 2) total_cells],
            tree_percent_history :=
              tree_percent_history s @ [percent (count_cells new_grid 1) total_cells]\<rparr>,
          snd (snd r)))"

text \<open>The body of the extinguishing loop of \<open>move_player\<close> at one cell of the footprint.\<close>

definition extinguish_cell :: "ForestFireGame \<Rightarrow> int \<times> int \<Rightarrow> ForestFireGame" where
  "extinguish_cell s c =
     (let i = fst c; j = snd c in
      if 0 \<le> i \<and> i < grid_size s \<and> 0 \<le> j \<and> j < grid_size s then
        (if cell (grid s) i j = 2
         then s\<lparr>grid := set_cell (grid s) i j 0,
                extinguished := extinguished s + 1,
                extinguish_overlay := set_cell (extinguish_overlay s) i j 2\<rparr>
         else s)
      else s)"

definition new_pos :: "string set \<Rightarrow> int \<Rightarrow> int \<times> int \<Rightarrow> int \<times> int" where
  "new_pos direction n p =
     (let x = fst p; y = snd p;
          x = (if ''UP'' \<in> direction \<and> x > 0 then x - 1 else x);
          x = (if ''DOWN'' \<in> direction \<and> x < n - 3 then x + 1 else x);
          y = (if ''LEFT'' \<in> direction \<and> y > 0 then y - 1 else y);
          y = (if ''RIGHT'' \<in> direction \<and> y < n - 3 then y + 1 else y)
      in (x, y))"

definition footprint :: "int \<times> int \<Rightarrow> (int \<times> int) list" where
  "footprint p = List.product [fst p..fst p + 2] [snd p..snd p + 2]"

definition move_player :: "string set \<Rightarrow> ForestFireGame \<Rightarrow> ForestFireGame" where
  "move_player direction s =
     (let p = new_pos direction (grid_size s) (player_pos s)
      in foldl extinguish_cell (s\<lparr>player_pos := p\<rparr>) (footprint p))"

text \<open>\<open>get_stats\<close>: burned, extinguished, remaining trees.\<close>

definition get_stats :: "ForestFireGame \<Rightarrow> int \<times> int \<times> int" where
  "get_stats s = (burned s, extinguished s, count_cells (grid s) 1)"

text \<open>
  One pass of the loop of \<open>main\<close>, after the events have been read into the set of held
  directions: the player moves when a direction is held, the simulation steps on every
  fifth frame, the frame counter goes up.
\<close>

definition simulation_step_interval :: int where
  "simulation_step_interval = 5"

definition frame ::
  "rng \<Rightarrow> string set \<Rightarrow> ForestFireGame \<times> nat \<times> int \<Rightarrow> ForestFireGame \<times> nat \<times> int" where
  "frame rnd directions st =
     (let game = fst st; k = fst (snd st); simulation_counter = snd (snd st);
          game = (if directions \<noteq> {} then move_player directions game else game);
          gk = (if simulation_counter mod simulation_step_interval = 0
                then ForestFireGame_step rnd (game, k) else (game, k))
      in (fst gk, snd gk, simulation_counter + 1))"

section \<open>The transition rule in closed form\<close>

text \<open>
  Auxiliary notions for the proofs, not part of the source: whether a burning neighbour
  exists among the offsets, the value the rule gives a cell for a draw \<open>r\<close>, which cells
  take a draw from the generator, the number of draws taken before a cell is visited,
  and a sweep in which every cell gets the draw \<open>d c\<close> assigned to it.
\<close>

definition fire_near :: "(int \<times> int) list \<Rightarrow> int \<Rightarrow> grid \<Rightarrow> int \<Rightarrow> int \<Rightarrow> bool" where
  "fire_near offs n g x y \<longleftrightarrow>
     list_ex (\<lambda>d. in_grid n (x + fst d, y + snd d) \<and> cell g (x + fst d) (y + snd d) = 2) offs"

definition next_state ::
  "(int \<times> int) list \<Rightarrow> int \<Rightarrow> real \<Rightarrow> real \<Rightarrow> grid \<Rightarrow> real \<Rightarrow> int \<times> int \<Rightarrow> int" where
  "next_state offs n pt pf g r c =
     (let v = cell g (fst c) (snd c) in
      if v = 0 then (if r < pt then 1 else 0)
      else if v = 1 then (if r < pf \<or> fire_near offs n g (fst c) (snd c) then 2 else 1)
      else if v = 2 then 0 else v)"

definition consumes :: "grid \<Rightarrow> int \<times> int \<Rightarrow> bool" where
  "consumes g c \<longleftrightarrow> cell g (fst c) (snd c) = 0 \<or> cell g (fst c) (snd c) = 1"

definition burning :: "grid \<Rightarrow> int \<times> int \<Rightarrow> bool" where
  "burning g c \<longleftrightarrow> cell g (fst c) (snd c) = 2"

definition draw_index :: "grid \<Rightarrow> (int \<times> int) list \<Rightarrow> int \<times> int \<Rightarrow> nat" where
  "draw_index g cs c = length (filter (consumes g) (takeWhile (\<lambda>c'. c' \<noteq> c) cs))"

definition step_assigned ::
  "(int \<times> int) list \<Rightarrow> int \<Rightarrow> real \<Rightarrow> real \<Rightarrow> grid \<Rightarrow> (int \<times> int \<Rightarrow> real) \<Rightarrow>
     (int \<times> int) list \<Rightarrow> grid \<Rightarrow> grid" where
  "step_assigned offs n pt pf g d cs new_grid =
     foldl (\<lambda>ng c. set_cell ng (fst c) (snd c) (next_state offs n pt pf g (d c) c)) new_grid cs"


text \<open>Concrete states for the examples.\<close>

definition demo_model :: "grid \<Rightarrow> ForestFireModel" where
  "demo_model g = \<lparr>grid_size = int (length g), p_tree = 0, p_fire = 0, grid = g\<rparr>"

definition demo_game :: "grid \<Rightarrow> int \<times> int \<Rightarrow> grid \<Rightarrow> ForestFireGame" where
  "demo_game g p ov =
     \<lparr>grid_size = int (length g), p_tree = 0, p_fire = 0, grid = g,
      player_pos = p, extinguished = 0, burned = 0, extinguish_overlay = ov,
      time_step = 0, burned_history = [], extinguished_history = [], trees_history = [],
      fire_percent_history = [], tree_percent_history = []\<rparr>"

text \<open>
  The anchor of the player is in range when the whole 3 by 3 footprint lies in the grid.
\<close>

definition anchor_ok :: "int \<Rightarrow> int \<times> int \<Rightarrow> bool" where
  "anchor_ok n p \<longleftrightarrow> 0 \<le> fst p \<and> fst p \<le> n - 3 \<and> 0 \<le> snd p \<and> snd p \<le> n - 3"

text \<open>A sequence of calls of \<open>move_player\<close>.\<close>

definition moves :: "string set list \<Rightarrow> ForestFireGame \<Rightarrow> ForestFireGame" where
  "moves ds s = foldl (\<lambda>s d. move_player d s) s ds"

text \<open>Both arrays of a game have the shape \<open>grid_size \<times> grid_size\<close>.\<close>

definition wf_game :: "ForestFireGame \<Rightarrow> bool" where
  "wf_game s \<longleftrightarrow> wf_grid (grid_size s) (grid s) \<and> wf_grid (grid_size s) (extinguish_overlay s)"

text \<open>The cells among \<open>cs\<close> that lie in the grid and burn in the state \<open>s\<close>.\<close>

definition doused :: "ForestFireGame \<Rightarrow> (int \<times> int) list \<Rightarrow> int \<times> int \<Rightarrow> bool" where
  "doused s cs c \<longleftrightarrow> c \<in> set cs \<and> in_grid (grid_size s) c \<and> burning (grid s) c"

text \<open>
  Interleavings of the two operations that change a game, the generator threaded through:
  a call of \<open>move_player\<close> or a call of \<open>step\<close>.
\<close>

datatype op = Move "string set" | Tick

fun apply_op :: "rng \<Rightarrow> ForestFireGame \<times> nat \<Rightarrow> op \<Rightarrow> ForestFireGame \<times> nat" where
  "apply_op rnd (s, k) (Move d) = (move_player d s, k)"
| "apply_op rnd (s, k) Tick = ForestFireGame_step rnd (s, k)"

definition run :: "rng \<Rightarrow> ForestFireGame \<times> nat \<Rightarrow> op list \<Rightarrow> ForestFireGame \<times> nat" where
  "run rnd sk ops = foldl (apply_op rnd) sk ops"

text \<open>
  The number of cells that burn in \<open>g\<close> and no longer burn in \<open>g'\<close>, and, along a run,
  the number of such cells per kind of operation: first those that left the fire state
  in a step, second those that left it in a move.
\<close>

definition fire_exits :: "int \<Rightarrow> grid \<Rightarrow> grid \<Rightarrow> int" where
  "fire_exits n g g' =
     int (length (filter (\<lambda>c. cell g (fst c) (snd c) = 2 \<and> cell g' (fst c) (snd c) \<noteq> 2)
       (cells n)))"

fun exits :: "rng \<Rightarrow> ForestFireGame \<times> nat \<Rightarrow> op list \<Rightarrow> int \<times> int" where
  "exits rnd sk [] = (0, 0)"
| "exits rnd sk (opn # ops) =
     (let sk' = apply_op rnd sk opn;
          e = fire_exits (grid_size (fst sk)) (grid (fst sk)) (grid (fst sk'));
          r = exits rnd sk' ops
      in case opn of Tick \<Rightarrow> (fst r + e, snd r) | Move d \<Rightarrow> (fst r, snd r + e))"

text \<open>
  The stream of draws that, for the visiting order \<open>cs\<close> and a generator at position
  \<open>k\<close>, hands every cell \<open>c\<close> that draws the value \<open>d c\<close>.
\<close>

definition stream_for :: "nat \<Rightarrow> grid \<Rightarrow> (int \<times> int \<Rightarrow> real) \<Rightarrow> (int \<times> int) list \<Rightarrow> rng" where
  "stream_for k g d cs = (\<lambda>i. d (filter (consumes g) cs ! (i - k)))"

section \<open>Grids and sweeps\<close>

lemma wf_gridD:
  "wf_grid n g \<Longrightarrow> in_grid n (x, y) \<Longrightarrow> nat x < length g \<and> nat y < length (g ! nat x)"
  by (auto simp: wf_grid_def in_grid_def)

lemma wf_set_cell: "wf_grid n g \<Longrightarrow> wf_grid n (set_cell g x y v)"
proof (cases "nat x < length g")
  case False
  assume "wf_grid n g"
  with False show ?thesis by (simp add: set_cell_def list_update_beyond)
next
  case True
  assume wf: "wf_grid n g"
  have "length row = nat n" if "row \<in> set (set_cell g x y v)" for row
  proof -
    from that have "row \<in> insert ((g ! nat x)[nat y := v]) (set g)"
      unfolding set_cell_def using set_update_subset_insert by fastforce
    then show ?thesis using wf True by (auto simp: wf_grid_def)
  qed
  then show ?thesis using wf by (simp add: wf_grid_def set_cell_def)
qed

lemma cell_set_cell:
  "wf_grid n g \<Longrightarrow> in_grid n (x, y) \<Longrightarrow> in_grid n (i, j) \<Longrightarrow>
   cell (set_cell g x y v) i j = (if i = x \<and> j = y then v else cell g i j)"
  unfolding cell_def set_cell_def
  by (auto simp: wf_grid_def in_grid_def nth_list_update)

lemma set_cell_same:
  "cell g x y = v \<Longrightarrow> set_cell g x y v = g"
  unfolding cell_def set_cell_def by auto

lemma grid_eqI:
  assumes "wf_grid n a" "wf_grid n b"
    and "\<And>i j. in_grid n (i, j) \<Longrightarrow> cell a i j = cell b i j"
  shows "a = b"
proof (rule nth_equalityI)
  show "length a = length b" using assms(1,2) by (simp add: wf_grid_def)
next
  fix i assume i: "i < length a"
  have la: "length (a ! i) = nat n" using assms(1) i by (simp add: wf_grid_def)
  have lb: "length (b ! i) = nat n" using assms(1,2) i by (simp add: wf_grid_def)
  show "a ! i = b ! i"
  proof (rule nth_equalityI)
    show "length (a ! i) = length (b ! i)" using la lb by simp
  next
    fix j assume j: "j < length (a ! i)"
    have "in_grid n (int i, int j)" using i j la assms(1) by (auto simp: in_grid_def wf_grid_def)
    from assms(3)[OF this] show "a ! i ! j = b ! i ! j" by (simp add: cell_def)
  qed
qed

lemma set_cells: "set (cells n) = {c. in_grid n c}"
  by (auto simp: cells_def in_grid_def)

lemma distinct_cells: "distinct (cells n)"
  by (simp add: cells_def distinct_product)


lemma spread_eq:
  "spread offs n g x y ng = (if fire_near offs n g x y then set_cell ng x y 2 else ng)"
  by (induction offs) (auto simp: fire_near_def in_grid_def Let_def)

lemma model_visit_eq:
  assumes "cell ng x y = cell g x y"
  shows "model_visit n pt pf g rnd (ng, k) (x, y) =
     (set_cell ng x y (next_state von_neumann n pt pf g (rnd k) (x, y)),
      k + (if consumes g (x, y) then 1 else 0))"
  using assms by (auto simp: spread_eq next_state_def consumes_def set_cell_same)

lemma game_visit_eq:
  assumes "cell ng x y = cell g x y"
  shows "game_visit n pt pf g rnd (ng, b, k) (x, y) =
     (set_cell ng x y (next_state moore n pt pf g (rnd k) (x, y)),
      b + (if burning g (x, y) then 1 else 0),
      k + (if consumes g (x, y) then 1 else 0))"
  using assms by (auto simp: spread_eq next_state_def consumes_def burning_def set_cell_same)

lemma step_assigned_cong:
  "(\<And>c. c \<in> set cs \<Longrightarrow> d c = d' c) \<Longrightarrow>
   step_assigned offs n pt pf g d cs ng = step_assigned offs n pt pf g d' cs ng"
  unfolding step_assigned_def by (induction cs arbitrary: ng) auto

lemma step_assigned_Cons:
  "step_assigned offs n pt pf g d (c # cs) ng =
   step_assigned offs n pt pf g d cs (set_cell ng (fst c) (snd c) (next_state offs n pt pf g (d c) c))"
  by (simp add: step_assigned_def)

lemma draw_index_Cons:
  "draw_index g (c0 # cs) c =
     (if c = c0 then 0 else (if consumes g c0 then 1 else 0) + draw_index g cs c)"
  by (auto simp: draw_index_def)

lemma wf_step_assigned:
  "wf_grid n ng \<Longrightarrow> wf_grid n (step_assigned offs n pt pf g d cs ng)"
  by (induction cs arbitrary: ng) (auto simp: step_assigned_def wf_set_cell)

lemma cell_step_assigned:
  assumes "distinct cs" "\<forall>c \<in> set cs. in_grid n c" "wf_grid n ng" "in_grid n c"
  shows "cell (step_assigned offs n pt pf g d cs ng) (fst c) (snd c) =
     (if c \<in> set cs then next_state offs n pt pf g (d c) c else cell ng (fst c) (snd c))"
  using assms
proof (induction cs arbitrary: ng)
  case Nil
  then show ?case by (simp add: step_assigned_def)
next
  case (Cons c0 cs)
  let ?ng = "set_cell ng (fst c0) (snd c0) (next_state offs n pt pf g (d c0) c0)"
  have wf': "wf_grid n ?ng" using Cons.prems(3) by (rule wf_set_cell)
  have c0: "in_grid n (fst c0, snd c0)" using Cons.prems(2) by simp
  have c: "in_grid n (fst c, snd c)" using Cons.prems(4) by simp
  have "cell (step_assigned offs n pt pf g d cs ?ng) (fst c) (snd c) =
     (if c \<in> set cs then next_state offs n pt pf g (d c) c else cell ?ng (fst c) (snd c))"
    using Cons.IH[OF _ _ wf' Cons.prems(4)] Cons.prems(1,2) by simp
  moreover have "cell ?ng (fst c) (snd c) =
     (if c = c0 then next_state offs n pt pf g (d c0) c0 else cell ng (fst c) (snd c))"
    using cell_set_cell[OF Cons.prems(3) c0 c] by (auto simp: prod_eq_iff)
  ultimately show ?case using Cons.prems(1)
    by (auto simp: step_assigned_Cons)
qed

lemma game_fold:
  assumes "distinct cs" "\<forall>c \<in> set cs. in_grid n c" "wf_grid n ng"
    and "\<forall>c \<in> set cs. cell ng (fst c) (snd c) = cell g (fst c) (snd c)"
  shows "foldl (game_visit n pt pf g rnd) (ng, b, k) cs =
     (step_assigned moore n pt pf g (\<lambda>c. rnd (k + draw_index g cs c)) cs ng,
      b + int (length (filter (burning g) cs)),
      k + length (filter (consumes g) cs))"
  using assms
proof (induction cs arbitrary: ng b k)
  case Nil
  then show ?case by (simp add: step_assigned_def)
next
  case (Cons c0 cs)
  obtain x y where c0: "c0 = (x, y)" by (cases c0)
  let ?v = "next_state moore n pt pf g (rnd k) (x, y)"
  let ?ng = "set_cell ng x y ?v"
  let ?b = "b + (if burning g (x, y) then 1 else 0)"
  let ?k = "k + (if consumes g (x, y) then 1 else 0)"
  have vis: "game_visit n pt pf g rnd (ng, b, k) (x, y) = (?ng, ?b, ?k)"
    using Cons.prems(4) c0 by (intro game_visit_eq) simp
  have wf': "wf_grid n ?ng" using Cons.prems(3) by (rule wf_set_cell)
  have same: "\<forall>c \<in> set cs. cell ?ng (fst c) (snd c) = cell g (fst c) (snd c)"
  proof
    fix c assume c: "c \<in> set cs"
    then have ne: "c \<noteq> (x, y)" using Cons.prems(1) c0 by auto
    have "in_grid n (fst c, snd c)" "in_grid n (x, y)" using Cons.prems(2) c c0 by auto
    from cell_set_cell[OF Cons.prems(3) this(2) this(1)] ne
    have "cell ?ng (fst c) (snd c) = cell ng (fst c) (snd c)" by (auto simp: prod_eq_iff)
    then show "cell ?ng (fst c) (snd c) = cell g (fst c) (snd c)"
      using Cons.prems(4) c by simp
  qed
  have IH: "foldl (game_visit n pt pf g rnd) (?ng, ?b, ?k) cs =
     (step_assigned moore n pt pf g (\<lambda>c. rnd (?k + draw_index g cs c)) cs ?ng,
      ?b + int (length (filter (burning g) cs)),
      ?k + length (filter (consumes g) cs))"
    using Cons.IH[OF _ _ wf' same] Cons.prems(1,2) by simp
  have cong: "step_assigned moore n pt pf g (\<lambda>c. rnd (?k + draw_index g cs c)) cs ?ng =
     step_assigned moore n pt pf g (\<lambda>c. rnd (k + draw_index g (c0 # cs) c)) cs ?ng"
    using Cons.prems(1) c0 by (intro step_assigned_cong) (auto simp: draw_index_Cons)
  show ?case
    using vis IH cong c0 by (simp add: step_assigned_Cons draw_index_Cons)
qed


lemma model_fold:
  assumes "distinct cs" "\<forall>c \<in> set cs. in_grid n c" "wf_grid n ng"
    and "\<forall>c \<in> set cs. cell ng (fst c) (snd c) = cell g (fst c) (snd c)"
  shows "foldl (model_visit n pt pf g rnd) (ng, k) cs =
     (step_assigned von_neumann n pt pf g (\<lambda>c. rnd (k + draw_index g cs c)) cs ng,
      k + length (filter (consumes g) cs))"
  using assms
proof (induction cs arbitrary: ng k)
  case Nil
  then show ?case by (simp add: step_assigned_def)
next
  case (Cons c0 cs)
  obtain x y where c0: "c0 = (x, y)" by (cases c0)
  let ?v = "next_state von_neumann n pt pf g (rnd k) (x, y)"
  let ?ng = "set_cell ng x y ?v"
  let ?k = "k + (if consumes g (x, y) then 1 else 0)"
  have vis: "model_visit n pt pf g rnd (ng, k) (x, y) = (?ng, ?k)"
    using Cons.prems(4) c0 by (intro model_visit_eq) simp
  have wf': "wf_grid n ?ng" using Cons.prems(3) by (rule wf_set_cell)
  have same: "\<forall>c \<in> set cs. cell ?ng (fst c) (snd c) = cell g (fst c) (snd c)"
  proof
    fix c assume c: "c \<in> set cs"
    then have ne: "c \<noteq> (x, y)" using Cons.prems(1) c0 by auto
    have "in_grid n (fst c, snd c)" "in_grid n (x, y)" using Cons.prems(2) c c0 by auto
    from cell_set_cell[OF Cons.prems(3) this(2) this(1)] ne
    have "cell ?ng (fst c) (snd c) = cell ng (fst c) (snd c)" by (auto simp: prod_eq_iff)
    then show "cell ?ng (fst c) (snd c) = cell g (fst c) (snd c)"
      using Cons.prems(4) c by simp
  qed
  have IH: "foldl (model_visit n pt pf g rnd) (?ng, ?k) cs =
     (step_assigned von_neumann n pt pf g (\<lambda>c. rnd (?k + draw_index g cs c)) cs ?ng,
      ?k + length (filter (consumes g) cs))"
    using Cons.IH[OF _ _ wf' same] Cons.prems(1,2) by simp
  have cong: "step_assigned von_neumann n pt pf g (\<lambda>c. rnd (?k + draw_index g cs c)) cs ?ng =
     step_assigned von_neumann n pt pf g (\<lambda>c. rnd (k + draw_index g (c0 # cs) c)) cs ?ng"
    using Cons.prems(1) c0 by (intro step_assigned_cong) (auto simp: draw_index_Cons)
  show ?case
    using vis IH cong c0 by (simp add: step_assigned_Cons draw_index_Cons)
qed

lemma in_grid_cells: "c \<in> set (cells n) \<longleftrightarrow> in_grid n c"
  by (simp add: set_cells)

lemma model_step_grid:
  assumes "wf_grid (grid_size m) (grid m)"
  shows "grid (fst (ForestFireModel_step rnd (m, k))) =
     step_assigned von_neumann (grid_size m) (p_tree m) (p_fire m) (grid m)
       (\<lambda>c. rnd (k + draw_index (grid m) (cells (grid_size m)) c)) (cells (grid_size m)) (grid m)"
  using model_fold[OF distinct_cells _ assms, where g = "grid m" and pt = "p_tree m"
      and pf = "p_fire m" and rnd = rnd and k = k]
  by (simp add: ForestFireModel_step_def Let_def in_grid_cells)

lemma game_step_fold:
  assumes "wf_grid (grid_size s) (grid s)"
  shows "foldl (game_visit (grid_size s) (p_tree s) (p_fire s) (grid s) rnd)
           (grid s, burned s, k) (cells (grid_size s)) =
     (step_assigned moore (grid_size s) (p_tree s) (p_fire s) (grid s)
       (\<lambda>c. rnd (k + draw_index (grid s) (cells (grid_size s)) c)) (cells (grid_size s)) (grid s),
      burned s + int (length (filter (burning (grid s)) (cells (grid_size s)))),
      k + length (filter (consumes (grid s)) (cells (grid_size s))))"
  using game_fold[OF distinct_cells _ assms, where g = "grid s" and pt = "p_tree s"
      and pf = "p_fire s" and rnd = rnd and b = "burned s" and k = k]
  by (simp add: in_grid_cells)

lemma game_step_grid:
  assumes "wf_grid (grid_size s) (grid s)"
  shows "grid (fst (ForestFireGame_step rnd (s, k))) =
     step_assigned moore (grid_size s) (p_tree s) (p_fire s) (grid s)
       (\<lambda>c. rnd (k + draw_index (grid s) (cells (grid_size s)) c)) (cells (grid_size s)) (grid s)"
  by (simp add: ForestFireGame_step_def Let_def game_step_fold[OF assms])

lemma game_step_burned:
  assumes "wf_grid (grid_size s) (grid s)"
  shows "burned (fst (ForestFireGame_step rnd (s, k))) =
     burned s + int (length (filter (burning (grid s)) (cells (grid_size s))))"
  by (simp add: ForestFireGame_step_def Let_def game_step_fold[OF assms])

lemma cell_model_step:
  assumes "wf_grid (grid_size m) (grid m)" "in_grid (grid_size m) c"
  shows "cell (grid (fst (ForestFireModel_step rnd (m, k)))) (fst c) (snd c) =
     next_state von_neumann (grid_size m) (p_tree m) (p_fire m) (grid m)
       (rnd (k + draw_index (grid m) (cells (grid_size m)) c)) c"
  using cell_step_assigned[OF distinct_cells _ assms(1,2)] assms(2)
  by (simp add: model_step_grid[OF assms(1)] in_grid_cells)

lemma cell_game_step:
  assumes "wf_grid (grid_size s) (grid s)" "in_grid (grid_size s) c"
  shows "cell (grid (fst (ForestFireGame_step rnd (s, k)))) (fst c) (snd c) =
     next_state moore (grid_size s) (p_tree s) (p_fire s) (grid s)
       (rnd (k + draw_index (grid s) (cells (grid_size s)) c)) c"
  using cell_step_assigned[OF distinct_cells _ assms(1,2)] assms(2)
  by (simp add: game_step_grid[OF assms(1)] in_grid_cells)

lemma fire_near_iff:
  "fire_near offs n g x y \<longleftrightarrow>
     (\<exists>d \<in> set offs. in_grid n (x + fst d, y + snd d) \<and> cell g (x + fst d) (y + snd d) = 2)"
  by (simp add: fire_near_def list_ex_iff)


lemma list_eq_map_upto: "length xs = nat n \<Longrightarrow> map (\<lambda>i. xs ! nat i) [0..n - 1] = xs"
  by (rule nth_equalityI) auto

lemma length_filter_concat:
  "int (length (filter P (concat xss))) = sum_list (map (\<lambda>xs. int (length (filter P xs))) xss)"
  by (induction xss) auto

lemma row_count:
  assumes "wf_grid n g" "0 \<le> x" "x < n"
  shows "length (filter (\<lambda>c. cell g (fst c) (snd c) = v) (map (Pair x) [0..n - 1])) =
         length (filter (\<lambda>c. c = v) (g ! nat x))"
proof -
  have len: "length (g ! nat x) = nat n" using assms by (simp add: wf_grid_def)
  have "filter (\<lambda>c. c = v) (g ! nat x) =
        filter (\<lambda>c. c = v) (map (\<lambda>y. g ! nat x ! nat y) [0..n - 1])"
    using list_eq_map_upto[OF len] by simp
  then show ?thesis by (simp add: filter_map comp_def cell_def)
qed

lemma count_cells_eq:
  assumes "wf_grid n g"
  shows "int (length (filter (\<lambda>c. cell g (fst c) (snd c) = v) (cells n))) = count_cells g v"
proof -
  have len: "length g = nat n" using assms by (simp add: wf_grid_def)
  have "count_cells g v =
        sum_list (map (\<lambda>row. int (length (filter (\<lambda>c. c = v) row))) (map (\<lambda>x. g ! nat x) [0..n - 1]))"
    unfolding count_cells_def using list_eq_map_upto[OF len] by simp
  also have "\<dots> = sum_list (map (\<lambda>x. int (length (filter (\<lambda>c. c = v) (g ! nat x)))) [0..n - 1])"
    by (simp add: comp_def)
  also have "\<dots> = sum_list (map (\<lambda>x. int (length (filter (\<lambda>c. cell g (fst c) (snd c) = v)
                        (map (Pair x) [0..n - 1])))) [0..n - 1])"
  proof -
    have "int (length (filter (\<lambda>c. c = v) (g ! nat x))) =
          int (length (filter (\<lambda>c. cell g (fst c) (snd c) = v) (map (Pair x) [0..n - 1])))"
      if "x \<in> set [0..n - 1]" for x
    proof -
      from that have "0 \<le> x" "x < n" by auto
      from row_count[OF assms this] show ?thesis by (simp only:)
    qed
    then show ?thesis by (metis (mono_tags, lifting) map_cong)
  qed
  also have "\<dots> = int (length (filter (\<lambda>c. cell g (fst c) (snd c) = v) (cells n)))"
    by (simp add: cells_def product_concat_map length_filter_concat comp_def)
  finally show ?thesis by simp
qed


section \<open>The automaton step\<close>

text \<open>
  C1. A cell that is a tree before the step burns after it when its own draw is below
  \<open>p_fire\<close>; otherwise it burns exactly when some in-bounds neighbour of the
  neighbourhood (von Neumann in \<open>ForestFireModel\<close>, Moore in \<open>ForestFireGame\<close>) burns
  in the grid before the step; otherwise it stays a tree. The draw of the cell is the
  one the generator hands out when the sweep reaches the cell.
\<close>

theorem tree_cell_rule:
  assumes "wf_grid (grid_size m) (grid m)" "in_grid (grid_size m) (x, y)"
    and "cell (grid m) x y = 1"
    and "wf_grid (grid_size s) (grid s)" "in_grid (grid_size s) (i, j)"
    and "cell (grid s) i j = 1"
  shows "cell (grid (fst (ForestFireModel_step rnd (m, k)))) x y =
           (if rnd (k + draw_index (grid m) (cells (grid_size m)) (x, y)) < p_fire m then 2
            else if (\<exists>d \<in> set von_neumann. in_grid (grid_size m) (x + fst d, y + snd d)
                        \<and> cell (grid m) (x + fst d) (y + snd d) = 2) then 2
            else 1)
       \<and> cell (grid (fst (ForestFireGame_step rnd' (s, k')))) i j =
           (if rnd' (k' + draw_index (grid s) (cells (grid_size s)) (i, j)) < p_fire s then 2
            else if (\<exists>d \<in> set moore. in_grid (grid_size s) (i + fst d, j + snd d)
                        \<and> cell (grid s) (i + fst d) (j + snd d) = 2) then 2
            else 1)"
  using cell_model_step[OF assms(1,2), where rnd = rnd and k = k]
    cell_game_step[OF assms(4,5), where rnd = rnd' and k = k']
    assms(3,6)
  by (simp add: next_state_def fire_near_iff)

theorem tree_cell_rule_witness:
  "wf_grid 2 [[2, 1], [0, 1]] \<and> in_grid 2 (0, 1) \<and> cell [[2, 1], [0, 1]] 0 1 = 1
   \<and> cell (grid (fst (ForestFireModel_step (\<lambda>_. 1) (demo_model [[2, 1], [0, 1]], 0)))) 0 1 = 2
   \<and> cell (grid (fst (ForestFireGame_step (\<lambda>_. 1)
         (demo_game [[2, 1], [0, 1]] (0, 0) [[0, 0], [0, 0]], 0)))) 1 1 = 2"
  using tree_cell_rule[of "demo_model [[2, 1], [0, 1]]" 0 1
      "demo_game [[2, 1], [0, 1]] (0, 0) [[0, 0], [0, 0]]" 1 1 "\<lambda>_. 1" 0 "\<lambda>_. 1" 0]
  by (simp add: demo_model_def demo_game_def wf_grid_def in_grid_def cell_def
      von_neumann_def moore_def)

text \<open>
  C2. A cell that burns before the step is empty after it, in both classes, and the step
  of \<open>ForestFireGame\<close> adds to \<open>burned\<close> the number of cells that burned before it.
\<close>

theorem fire_cell_burns_out:
  assumes "wf_grid (grid_size m) (grid m)" "in_grid (grid_size m) (x, y)"
    and "cell (grid m) x y = 2"
    and "wf_grid (grid_size s) (grid s)" "in_grid (grid_size s) (i, j)"
    and "cell (grid s) i j = 2"
  shows "cell (grid (fst (ForestFireModel_step rnd (m, k)))) x y = 0
       \<and> cell (grid (fst (ForestFireGame_step rnd' (s, k')))) i j = 0
       \<and> burned (fst (ForestFireGame_step rnd' (s, k'))) = burned s + count_cells (grid s) 2"
  using cell_model_step[OF assms(1,2), where rnd = rnd and k = k]
    cell_game_step[OF assms(4,5), where rnd = rnd' and k = k']
    assms(3,6) game_step_burned[OF assms(4), of rnd' k'] count_cells_eq[OF assms(4), of 2]
  by (simp add: next_state_def burning_def[abs_def])

theorem fire_cell_burns_out_witness:
  "wf_grid 2 [[2, 1], [0, 2]] \<and> in_grid 2 (0, 0) \<and> cell [[2, 1], [0, 2]] 0 0 = 2
   \<and> cell (grid (fst (ForestFireModel_step (\<lambda>_. 1) (demo_model [[2, 1], [0, 2]], 0)))) 0 0 = 0
   \<and> cell (grid (fst (ForestFireGame_step (\<lambda>_. 1)
         (demo_game [[2, 1], [0, 2]] (0, 0) [[0, 0], [0, 0]], 0)))) 0 0 = 0
   \<and> burned (fst (ForestFireGame_step (\<lambda>_. 1)
         (demo_game [[2, 1], [0, 2]] (0, 0) [[0, 0], [0, 0]], 0))) = 2"
  using fire_cell_burns_out[of "demo_model [[2, 1], [0, 2]]" 0 0
      "demo_game [[2, 1], [0, 2]] (0, 0) [[0, 0], [0, 0]]" 0 0 "\<lambda>_. 1" 0 "\<lambda>_. 1" 0]
  by (simp add: demo_model_def demo_game_def wf_grid_def in_grid_def cell_def count_cells_def)

lemma filter_nth_draw_index:
  "c \<in> set cs \<Longrightarrow> consumes g c \<Longrightarrow> filter (consumes g) cs ! draw_index g cs c = c"
  by (induction cs) (auto simp: draw_index_Cons)

lemma next_state_no_draw:
  "\<not> consumes g c \<Longrightarrow> next_state offs n pt pf g r c = next_state offs n pt pf g r' c"
  by (simp add: next_state_def consumes_def)

lemma step_assigned_cong_draws:
  assumes "\<And>c. c \<in> set cs \<Longrightarrow> consumes g c \<Longrightarrow> d c = d' c"
  shows "step_assigned offs n pt pf g d cs ng = step_assigned offs n pt pf g d' cs ng"
  using assms
proof (induction cs arbitrary: ng)
  case Nil
  then show ?case by (simp add: step_assigned_def)
next
  case (Cons c cs)
  have "next_state offs n pt pf g (d c) c = next_state offs n pt pf g (d' c) c"
    using Cons.prems[of c] next_state_no_draw[of g c] by (cases "consumes g c") auto
  then show ?case using Cons by (simp add: step_assigned_Cons)
qed

lemma step_assigned_stream:
  "step_assigned offs n pt pf g (\<lambda>c. stream_for k g d cs (k + draw_index g cs c)) cs ng =
   step_assigned offs n pt pf g d cs ng"
  by (rule step_assigned_cong_draws) (simp add: stream_for_def filter_nth_draw_index)

lemma step_assigned_perm:
  assumes "wf_grid n g" "distinct cs" "set cs = set (cells n)"
  shows "step_assigned offs n pt pf g d cs g = step_assigned offs n pt pf g d (cells n) g"
proof (rule grid_eqI[where n = n])
  show "wf_grid n (step_assigned offs n pt pf g d cs g)"
    "wf_grid n (step_assigned offs n pt pf g d (cells n) g)"
    using assms(1) by (simp_all add: wf_step_assigned)
next
  fix i j assume c: "in_grid n (i, j)"
  have incs: "\<forall>c \<in> set cs. in_grid n c" using assms(3) by (simp add: in_grid_cells)
  show "cell (step_assigned offs n pt pf g d cs g) i j =
        cell (step_assigned offs n pt pf g d (cells n) g) i j"
    using cell_step_assigned[OF assms(2) incs assms(1) c,
        where offs = offs and pt = pt and pf = pf and g = g and d = d]
      cell_step_assigned[OF distinct_cells _ assms(1) c,
        where offs = offs and pt = pt and pf = pf and g = g and d = d] assms(3) c
    by (simp add: in_grid_cells)
qed

text \<open>
  C3. Every visit reads the grid from before the step only and writes its own cell of the
  new grid, so for a fixed assignment \<open>d\<close> of draws to cells the sweep over any
  permutation \<open>cs\<close> of the cells gives the grid of the row-major sweep of the source,
  in both classes.
\<close>

theorem sweep_order_independent:
  assumes "wf_grid n g" "distinct cs" "set cs = set (cells n)"
  shows "fst (foldl (model_visit n pt pf g (stream_for k g d cs)) (g, k) cs) =
         fst (foldl (model_visit n pt pf g (stream_for k g d (cells n))) (g, k) (cells n))
     \<and> fst (foldl (game_visit n pt pf g (stream_for k g d cs)) (g, b, k) cs) =
         fst (foldl (game_visit n pt pf g (stream_for k g d (cells n))) (g, b, k) (cells n))"
proof -
  have incs: "\<forall>c \<in> set cs. in_grid n c" using assms(3) by (simp add: in_grid_cells)
  have inall: "\<forall>c \<in> set (cells n). in_grid n c" by (simp add: in_grid_cells)
  show ?thesis
    by (simp add: model_fold[OF assms(2) incs assms(1)] model_fold[OF distinct_cells inall assms(1)]
        game_fold[OF assms(2) incs assms(1)] game_fold[OF distinct_cells inall assms(1)]
        step_assigned_stream step_assigned_perm[OF assms])
qed

theorem sweep_order_independent_witness:
  "wf_grid 2 [[2, 1], [0, 1]] \<and> distinct [(1, 1), (0, 1), (1, 0), (0::int, 0::int)]
   \<and> set [(1, 1), (0, 1), (1, 0), (0, 0)] = set (cells 2)
   \<and> fst (foldl (model_visit 2 (1/2) 0 [[2, 1], [0, 1]]
            (stream_for 0 [[2, 1], [0, 1]] (\<lambda>c. if c = (1, 0) then 0 else 1)
               [(1, 1), (0, 1), (1, 0), (0, 0)]))
          ([[2, 1], [0, 1]], 0) [(1, 1), (0, 1), (1, 0), (0, 0)]) = [[0, 2], [1, 1]]
   \<and> fst (foldl (model_visit 2 (1/2) 0 [[2, 1], [0, 1]]
            (stream_for 0 [[2, 1], [0, 1]] (\<lambda>c. if c = (1, 0) then 0 else 1) (cells 2)))
          ([[2, 1], [0, 1]], 0) (cells 2)) = [[0, 2], [1, 1]]"
proof -
  have c2: "cells 2 = [(0, 0), (0, 1), (1, 0), (1, 1)]" by code_simp
  have wf: "wf_grid 2 [[2, 1], [0, 1]]" by (simp add: wf_grid_def)
  have d: "distinct [(1, 1), (0, 1), (1, 0), (0::int, 0::int)]" by simp
  have s: "set [(1, 1), (0, 1), (1, 0), (0, 0)] = set (cells 2)" unfolding c2 by auto
  have v: "fst (foldl (model_visit 2 (1/2) 0 [[2, 1], [0, 1]]
            (stream_for 0 [[2, 1], [0, 1]] (\<lambda>c. if c = (1, 0) then 0 else 1)
               [(1, 1), (0, 1), (1, 0), (0, 0)]))
          ([[2, 1], [0, 1]], 0) [(1, 1), (0, 1), (1, 0), (0, 0)]) = [[0, 2], [1, 1]]"
    by code_simp
  have e: "fst (foldl (model_visit 2 (1/2) 0 [[2, 1], [0, 1]]
            (stream_for 0 [[2, 1], [0, 1]] (\<lambda>c. if c = (1, 0) then 0 else 1)
               [(1, 1), (0, 1), (1, 0), (0, 0)]))
          ([[2, 1], [0, 1]], 0) [(1, 1), (0, 1), (1, 0), (0, 0)]) =
        fst (foldl (model_visit 2 (1/2) 0 [[2, 1], [0, 1]]
            (stream_for 0 [[2, 1], [0, 1]] (\<lambda>c. if c = (1, 0) then 0 else 1) (cells 2)))
          ([[2, 1], [0, 1]], 0) (cells 2))"
    using sweep_order_independent[OF wf d s, where pt = "1/2" and pf = 0 and k = 0
        and d = "\<lambda>c. if c = (1, 0) then 0 else 1" and b = 0]
    by (rule conjunct1)
  have v': "fst (foldl (model_visit 2 (1/2) 0 [[2, 1], [0, 1]]
            (stream_for 0 [[2, 1], [0, 1]] (\<lambda>c. if c = (1, 0) then 0 else 1) (cells 2)))
          ([[2, 1], [0, 1]], 0) (cells 2)) = [[0, 2], [1, 1]]"
    using e v by (simp only:)
  show ?thesis using wf d s v v' by (intro conjI)
qed

section \<open>Construction\<close>

text \<open>
  C10. After a construction that returns, every cell of the grid is empty, every counter
  of the overlay is zero, both cumulative counters and the time step are zero, the five
  histories are empty and the anchor is \<open>(n div 2, n div 2)\<close>, which is outside the
  range \<open>[0, n - 3]\<close> when \<open>n < 5\<close>.
\<close>

theorem init_state:
  assumes "ForestFireModel_init n pt pf = Inr m" "ForestFireGame_init n' pt' pf' = Inr s"
  shows "wf_grid n (grid m) \<and> (\<forall>row \<in> set (grid m). \<forall>v \<in> set row. v = 0)
     \<and> wf_grid n' (grid s) \<and> (\<forall>row \<in> set (grid s). \<forall>v \<in> set row. v = 0)
     \<and> wf_grid n' (extinguish_overlay s)
     \<and> (\<forall>row \<in> set (extinguish_overlay s). \<forall>v \<in> set row. v = 0)
     \<and> burned s = 0 \<and> extinguished s = 0 \<and> time_step s = 0
     \<and> burned_history s = [] \<and> extinguished_history s = [] \<and> trees_history s = []
     \<and> fire_percent_history s = [] \<and> tree_percent_history s = []
     \<and> player_pos s = (n' div 2, n' div 2)
     \<and> (n' < 5 \<longrightarrow> \<not> (0 \<le> n' div 2 \<and> n' div 2 \<le> n' - 3))"
  using assms
  by (auto simp: ForestFireModel_init_def ForestFireGame_init_def wf_grid_def split: if_splits)

theorem init_state_witness:
  "ForestFireModel_init 3 (1/2) (1/4) = Inr (projr (ForestFireModel_init 3 (1/2) (1/4)))
   \<and> ForestFireGame_init 4 (1/2) (1/4) = Inr (projr (ForestFireGame_init 4 (1/2) (1/4)))
   \<and> grid (projr (ForestFireModel_init 3 (1/2) (1/4))) = [[0, 0, 0], [0, 0, 0], [0, 0, 0]]
   \<and> burned (projr (ForestFireGame_init 4 (1/2) (1/4))) = 0
   \<and> player_pos (projr (ForestFireGame_init 4 (1/2) (1/4))) = (2, 2)
   \<and> \<not> (0 \<le> (4::int) div 2 \<and> (4::int) div 2 \<le> 4 - 3)"
  using init_state[of 3 "1/2" "1/4" "projr (ForestFireModel_init 3 (1/2) (1/4))"
      4 "1/2" "1/4" "projr (ForestFireGame_init 4 (1/2) (1/4))"]
  by (simp add: ForestFireModel_init_def ForestFireGame_init_def numeral_3_eq_3)

text \<open>
  C8, as stated, fails: construction with a probability outside \<open>[0, 1]\<close> or with grid
  size 0 returns a state.
\<close>

theorem init_unvalidated_counterexample:
  "\<not> isl (ForestFireGame_init 5 2 (-1)) \<and> \<not> isl (ForestFireGame_init 0 (1/2) (1/2))
   \<and> \<not> isl (ForestFireModel_init 5 2 (-1)) \<and> \<not> isl (ForestFireModel_init 0 (1/2) (1/2))"
  by (simp add: ForestFireGame_init_def ForestFireModel_init_def)

text \<open>
  C8, amended. The constructors check nothing themselves: construction fails exactly when
  the grid size is negative, with the ValueError of \<open>np.zeros\<close>, and returns a state for
  every other size and for all values of \<open>p_tree\<close> and \<open>p_fire\<close>.
\<close>

theorem init_fails_iff_negative:
  "isl (ForestFireModel_init n pt pf) = (n < 0) \<and> isl (ForestFireGame_init n pt pf) = (n < 0)
   \<and> (\<forall>e. ForestFireModel_init n pt pf = Inl e \<or> ForestFireGame_init n pt pf = Inl e
          \<longrightarrow> e = ValueError)"
  by (auto simp: ForestFireGame_init_def ForestFireModel_init_def intro: error.exhaust)

theorem init_fails_iff_negative_witness:
  "\<not> isl (ForestFireModel_init 0 7 (-3)) \<and> \<not> isl (ForestFireGame_init 0 7 (-3))
   \<and> isl (ForestFireModel_init (-1) 0 0) \<and> ForestFireGame_init (-1) 0 0 = Inl ValueError"
  using init_fails_iff_negative[of 0 7 "-3"] init_fails_iff_negative[of "-1" 0 0]
  by (simp add: ForestFireGame_init_def)

text \<open>
  C9, as stated, fails: with the same construction parameters and the same grid, a tree
  whose only burning neighbour is diagonal stays a tree in \<open>ForestFireModel\<close> and burns
  in \<open>ForestFireGame\<close>; the neighbourhood belongs to the class, not to the parameters.
\<close>

theorem neighbourhood_counterexample:
  "cell (grid (fst (ForestFireModel_step (\<lambda>_. 1) (demo_model [[2, 0], [0, 1]], 0)))) 1 1 = 1
   \<and> cell (grid (fst (ForestFireGame_step (\<lambda>_. 1)
         (demo_game [[2, 0], [0, 1]] (0, 0) [[0, 0], [0, 0]], 0)))) 1 1 = 2"
  using cell_model_step[of "demo_model [[2, 0], [0, 1]]" "(1, 1)" "\<lambda>_. 1" 0]
    cell_game_step[of "demo_game [[2, 0], [0, 1]] (0, 0) [[0, 0], [0, 0]]" "(1, 1)" "\<lambda>_. 1" 0]
  by (simp add: demo_model_def demo_game_def wf_grid_def in_grid_def cell_def next_state_def
      fire_near_def von_neumann_def moore_def)

text \<open>
  C9, amended. Whatever parameters the constructors get, a tree that loses its draw burns
  after the step of \<open>ForestFireModel\<close> exactly when a von Neumann neighbour burns, and
  after the step of \<open>ForestFireGame\<close> exactly when a Moore neighbour burns.
\<close>

theorem neighbourhood_fixed_per_class:
  assumes "ForestFireModel_init n pt pf = Inr m" "ForestFireGame_init n pt pf = Inr s"
    and "wf_grid n g" "in_grid n (x, y)" "cell g x y = 1"
    and "\<not> rnd (k + draw_index g (cells n) (x, y)) < pf"
  shows "cell (grid (fst (ForestFireModel_step rnd (m\<lparr>grid := g\<rparr>, k)))) x y =
           (if fire_near von_neumann n g x y then 2 else 1)
       \<and> cell (grid (fst (ForestFireGame_step rnd (s\<lparr>grid := g\<rparr>, k)))) x y =
           (if fire_near moore n g x y then 2 else 1)"
proof -
  have m: "grid_size m = n" "p_fire m = pf" and s: "grid_size s = n" "p_fire s = pf"
    using assms(1,2)
    by (auto simp: ForestFireModel_init_def ForestFireGame_init_def split: if_splits)
  show ?thesis
    using cell_model_step[of "m\<lparr>grid := g\<rparr>" "(x, y)" rnd k]
      cell_game_step[of "s\<lparr>grid := g\<rparr>" "(x, y)" rnd k] assms(3-6) m s
    by (simp add: next_state_def)
qed

theorem neighbourhood_fixed_per_class_witness:
  "ForestFireModel_init 2 0 0 = Inr (projr (ForestFireModel_init 2 0 0))
   \<and> ForestFireGame_init 2 0 0 = Inr (projr (ForestFireGame_init 2 0 0))
   \<and> wf_grid 2 [[2, 0], [0, 1]] \<and> in_grid 2 (1, 1) \<and> cell [[2, 0], [0, 1]] 1 1 = 1
   \<and> cell (grid (fst (ForestFireModel_step (\<lambda>_. 1)
         ((projr (ForestFireModel_init 2 0 0))\<lparr>grid := [[2, 0], [0, 1]]\<rparr>, 0)))) 1 1 = 1
   \<and> cell (grid (fst (ForestFireGame_step (\<lambda>_. 1)
         ((projr (ForestFireGame_init 2 0 0))\<lparr>grid := [[2, 0], [0, 1]]\<rparr>, 0)))) 1 1 = 2"
  using neighbourhood_fixed_per_class[of 2 0 0 "projr (ForestFireModel_init 2 0 0)"
      "projr (ForestFireGame_init 2 0 0)" "[[2, 0], [0, 1]]" 1 1 "\<lambda>_. 1" 0]
  by (simp add: ForestFireModel_init_def ForestFireGame_init_def wf_grid_def in_grid_def
      cell_def fire_near_def von_neumann_def moore_def)

section \<open>The player\<close>

lemma new_pos_ok: "anchor_ok n p \<Longrightarrow> anchor_ok n (new_pos d n p)"
  by (auto simp: anchor_ok_def new_pos_def Let_def)

lemma extinguish_cell_fields:
  "grid_size (extinguish_cell s c) = grid_size s \<and> player_pos (extinguish_cell s c) = player_pos s
   \<and> burned (extinguish_cell s c) = burned s"
  by (simp add: extinguish_cell_def Let_def)

lemma extinguish_fold_fields:
  "grid_size (foldl extinguish_cell s cs) = grid_size s
   \<and> player_pos (foldl extinguish_cell s cs) = player_pos s
   \<and> burned (foldl extinguish_cell s cs) = burned s"
  by (induction cs arbitrary: s) (simp_all add: extinguish_cell_fields)

lemma move_player_fields:
  "grid_size (move_player d s) = grid_size s
   \<and> player_pos (move_player d s) = new_pos d (grid_size s) (player_pos s)
   \<and> burned (move_player d s) = burned s"
  by (simp add: move_player_def Let_def extinguish_fold_fields)

lemma moves_fields:
  "grid_size (moves ds s) = grid_size s"
  unfolding moves_def by (induction ds arbitrary: s) (simp_all add: move_player_fields)

lemma moves_anchor_ok:
  "anchor_ok (grid_size s) (player_pos s) \<Longrightarrow> anchor_ok (grid_size s) (player_pos (moves ds s))"
proof (induction ds arbitrary: s)
  case Nil
  then show ?case by (simp add: moves_def)
next
  case (Cons a ds)
  have "anchor_ok (grid_size (move_player a s)) (player_pos (move_player a s))"
    using Cons.prems by (simp add: move_player_fields new_pos_ok)
  from Cons.IH[OF this] show ?case by (simp add: moves_def move_player_fields)
qed

lemma footprint_in_grid:
  "anchor_ok n p \<Longrightarrow> list_all (in_grid n) (footprint p)"
  by (auto simp: anchor_ok_def footprint_def list_all_iff in_grid_def)

lemma init_anchor_ok:
  "ForestFireGame_init n pt pf = Inr s \<Longrightarrow> anchor_ok (grid_size s) (player_pos s) \<longleftrightarrow> 5 \<le> n"
  by (auto simp: ForestFireGame_init_def anchor_ok_def split: if_splits)


text \<open>
  C6, as stated, fails: on a grid of size 4 the anchor starts at \<open>(2, 2)\<close>, outside
  \<open>[0, 1]\<close>, and after a move to the left the footprint still reaches row 4.
\<close>

theorem anchor_unclamped_counterexample:
  "player_pos (moves [{''LEFT''}] (projr (ForestFireGame_init 4 0 0))) = (2, 1)
   \<and> \<not> anchor_ok 4 (player_pos (moves [{''LEFT''}] (projr (ForestFireGame_init 4 0 0))))
   \<and> \<not> list_all (in_grid 4)
         (footprint (player_pos (moves [{''LEFT''}] (projr (ForestFireGame_init 4 0 0)))))"
proof -
  have p: "player_pos (moves [{''LEFT''}] (projr (ForestFireGame_init 4 0 0))) = (2, 1)"
    by (simp add: moves_def move_player_fields ForestFireGame_init_def new_pos_def)
  have "(4, 1) \<in> set (footprint (2, 1))" by (simp add: footprint_def)
  moreover have "\<not> in_grid 4 (4, 1)" by (simp add: in_grid_def)
  ultimately have "\<not> list_all (in_grid 4) (footprint (2, 1))"
    unfolding list_all_iff by blast
  then show ?thesis using p by (simp add: anchor_ok_def)
qed

text \<open>
  C6, amended. When the anchor is in \<open>[0, size - 3]\<close> on both axes (as the initial
  anchor is exactly when \<open>size \<ge> 5\<close>), it stays there after every sequence of moves and
  the footprint stays in the grid; a single intent on an axis moves the anchor by one
  step, clamped at the end of the range.
\<close>

theorem anchor_stays_clamped:
  assumes "anchor_ok (grid_size s) (player_pos s)"
  shows "anchor_ok (grid_size s) (player_pos (moves ds s))
     \<and> list_all (in_grid (grid_size s)) (footprint (player_pos (moves ds s)))
     \<and> fst (player_pos (move_player d s)) =
         (if ''UP'' \<in> d \<and> ''DOWN'' \<notin> d then max 0 (fst (player_pos s) - 1)
          else if ''DOWN'' \<in> d \<and> ''UP'' \<notin> d then min (grid_size s - 3) (fst (player_pos s) + 1)
          else if ''UP'' \<notin> d \<or> 0 < fst (player_pos s) then fst (player_pos s)
          else min (grid_size s - 3) 1)
     \<and> snd (player_pos (move_player d s)) =
         (if ''LEFT'' \<in> d \<and> ''RIGHT'' \<notin> d then max 0 (snd (player_pos s) - 1)
          else if ''RIGHT'' \<in> d \<and> ''LEFT'' \<notin> d then min (grid_size s - 3) (snd (player_pos s) + 1)
          else if ''LEFT'' \<notin> d \<or> 0 < snd (player_pos s) then snd (player_pos s)
          else min (grid_size s - 3) 1)"
  using assms moves_anchor_ok[OF assms, of ds] footprint_in_grid
  by (auto simp: move_player_fields new_pos_def anchor_ok_def Let_def)

theorem anchor_stays_clamped_witness:
  "anchor_ok 5 (2, 2)
   \<and> anchor_ok 5 (player_pos (moves [{''DOWN''}, {''DOWN'', ''LEFT''}]
        (projr (ForestFireGame_init 5 0 0))))
   \<and> player_pos (moves [{''DOWN''}, {''DOWN'', ''LEFT''}]
        (projr (ForestFireGame_init 5 0 0))) = (2, 1)"
  using anchor_stays_clamped[of "projr (ForestFireGame_init 5 0 0)"
      "[{''DOWN''}, {''DOWN'', ''LEFT''}]" "{}"]
  by (simp add: moves_def move_player_fields ForestFireGame_init_def new_pos_def anchor_ok_def)

lemma extinguish_cell_eq:
  "extinguish_cell s c =
     (if in_grid (grid_size s) c \<and> burning (grid s) c
      then s\<lparr>grid := set_cell (grid s) (fst c) (snd c) 0,
             extinguished := extinguished s + 1,
             extinguish_overlay := set_cell (extinguish_overlay s) (fst c) (snd c) 2\<rparr>
      else s)"
  by (simp add: extinguish_cell_def in_grid_def burning_def Let_def)

lemma extinguish_fold:
  assumes "distinct cs" "wf_game s"
  shows "wf_game (foldl extinguish_cell s cs)
     \<and> extinguished (foldl extinguish_cell s cs) =
         extinguished s + int (length (filter (doused s cs) cs))
     \<and> (\<forall>c. in_grid (grid_size s) c \<longrightarrow>
           cell (grid (foldl extinguish_cell s cs)) (fst c) (snd c) =
             (if doused s cs c then 0 else cell (grid s) (fst c) (snd c))
         \<and> cell (extinguish_overlay (foldl extinguish_cell s cs)) (fst c) (snd c) =
             (if doused s cs c then 2 else cell (extinguish_overlay s) (fst c) (snd c)))"
  using assms(1)
proof (induction cs rule: rev_induct)
  case Nil
  then show ?case using assms(2) by (simp add: doused_def)
next
  case (snoc c cs)
  let ?t = "foldl extinguish_cell s cs"
  let ?n = "grid_size s"
  have d: "distinct cs" and notin: "c \<notin> set cs" using snoc.prems by auto
  note IH = snoc.IH[OF d]
  have nt: "grid_size ?t = ?n" by (simp add: extinguish_fold_fields)
  have wft: "wf_grid ?n (grid ?t)" "wf_grid ?n (extinguish_overlay ?t)"
    using IH nt by (simp_all add: wf_game_def)
  have same: "in_grid ?n c \<Longrightarrow> cell (grid ?t) (fst c) (snd c) = cell (grid s) (fst c) (snd c)"
    using IH notin by (simp add: doused_def)
  have filt: "filter (doused s (cs @ [c])) cs = filter (doused s cs) cs"
    by (rule filter_cong) (auto simp: doused_def)
  have dous: "doused s (cs @ [c]) c' \<longleftrightarrow> doused s cs c' \<or> (c' = c \<and> doused s [c] c)" for c'
    by (auto simp: doused_def)
  show ?case
  proof (cases "in_grid ?n c \<and> burning (grid s) c")
    case True
    then have b: "in_grid (grid_size ?t) c \<and> burning (grid ?t) c"
      using same nt by (simp add: burning_def)
    have step: "foldl extinguish_cell s (cs @ [c]) =
        ?t\<lparr>grid := set_cell (grid ?t) (fst c) (snd c) 0,
           extinguished := extinguished ?t + 1,
           extinguish_overlay := set_cell (extinguish_overlay ?t) (fst c) (snd c) 2\<rparr>"
      using b by (simp add: extinguish_cell_eq)
    have dc: "doused s [c] c" using True by (simp add: doused_def)
    have c: "in_grid ?n (fst c, snd c)" using True by simp
    have cells: "cell (set_cell (grid ?t) (fst c) (snd c) 0) (fst c') (snd c') =
          (if c' = c then 0 else cell (grid ?t) (fst c') (snd c'))"
      "cell (set_cell (extinguish_overlay ?t) (fst c) (snd c) 2) (fst c') (snd c') =
          (if c' = c then 2 else cell (extinguish_overlay ?t) (fst c') (snd c'))"
      if "in_grid ?n c'" for c'
      using cell_set_cell[OF wft(1) c, of "fst c'" "snd c'"]
        cell_set_cell[OF wft(2) c, of "fst c'" "snd c'"] that
      by (auto simp: prod_eq_iff)
    have dc': "doused s (cs @ [c]) c" using dc by (simp add: doused_def)
    have e: "int (length (filter (doused s (cs @ [c])) (cs @ [c]))) =
        int (length (filter (doused s cs) cs)) + 1"
      using filt dc' by simp
    have 1: "wf_game (foldl extinguish_cell s (cs @ [c]))"
      unfolding step using wft nt by (simp add: wf_game_def wf_set_cell)
    have 2: "extinguished (foldl extinguish_cell s (cs @ [c])) =
         extinguished s + int (length (filter (doused s (cs @ [c])) (cs @ [c])))"
      unfolding e unfolding step using IH by simp
    have 3: "cell (grid (foldl extinguish_cell s (cs @ [c]))) (fst c') (snd c') =
             (if doused s (cs @ [c]) c' then 0 else cell (grid s) (fst c') (snd c'))
         \<and> cell (extinguish_overlay (foldl extinguish_cell s (cs @ [c]))) (fst c') (snd c') =
             (if doused s (cs @ [c]) c' then 2 else cell (extinguish_overlay s) (fst c') (snd c'))"
      if "in_grid ?n c'" for c'
      unfolding step using IH that dc by (simp add: cells dous)
    show ?thesis using 1 2 3 by blast
  next
    case False
    then have b: "\<not> (in_grid (grid_size ?t) c \<and> burning (grid ?t) c)"
      using same nt by (auto simp: burning_def)
    have step: "foldl extinguish_cell s (cs @ [c]) = ?t"
      using b by (auto simp: extinguish_cell_eq)
    have dc: "\<not> doused s [c] c" using False by (simp add: doused_def)
    have dc': "\<not> doused s (cs @ [c]) c" using dc by (simp add: doused_def)
    have e: "int (length (filter (doused s (cs @ [c])) (cs @ [c]))) =
        int (length (filter (doused s cs) cs))"
      using filt dc' by simp
    have 2: "extinguished (foldl extinguish_cell s (cs @ [c])) =
         extinguished s + int (length (filter (doused s (cs @ [c])) (cs @ [c])))"
      unfolding e unfolding step using IH by simp
    have 3: "cell (grid (foldl extinguish_cell s (cs @ [c]))) (fst c') (snd c') =
             (if doused s (cs @ [c]) c' then 0 else cell (grid s) (fst c') (snd c'))
         \<and> cell (extinguish_overlay (foldl extinguish_cell s (cs @ [c]))) (fst c') (snd c') =
             (if doused s (cs @ [c]) c' then 2 else cell (extinguish_overlay s) (fst c') (snd c'))"
      if "in_grid ?n c'" for c'
      unfolding step using IH that dc by (simp add: dous)
    have 1: "wf_game (foldl extinguish_cell s (cs @ [c]))"
      unfolding step using IH by simp
    show ?thesis using 1 2 3 by blast
  qed
qed

lemma distinct_footprint: "distinct (footprint p)"
  by (simp add: footprint_def distinct_product)


text \<open>
  C4. For every set of intents, also the empty one, \<open>move_player\<close> empties every burning
  cell of the footprint at the new position, adds one to \<open>extinguished\<close> for each of
  them and sets the overlay counter of each to 2; every other cell of the grid and of the
  overlay keeps its value.
\<close>

theorem move_player_extinguishes:
  assumes "wf_game s" "in_grid (grid_size s) (i, j)"
  shows "player_pos (move_player d s) = new_pos d (grid_size s) (player_pos s)
     \<and> extinguished (move_player d s) = extinguished s +
         int (length (filter (\<lambda>c. in_grid (grid_size s) c \<and> cell (grid s) (fst c) (snd c) = 2)
                (footprint (player_pos (move_player d s)))))
     \<and> cell (grid (move_player d s)) i j =
         (if (i, j) \<in> set (footprint (player_pos (move_player d s))) \<and> cell (grid s) i j = 2
          then 0 else cell (grid s) i j)
     \<and> cell (extinguish_overlay (move_player d s)) i j =
         (if (i, j) \<in> set (footprint (player_pos (move_player d s))) \<and> cell (grid s) i j = 2
          then 2 else cell (extinguish_overlay s) i j)"
proof -
  let ?p = "new_pos d (grid_size s) (player_pos s)"
  let ?s = "s\<lparr>player_pos := ?p\<rparr>"
  have wf: "wf_game ?s" using assms(1) by (simp add: wf_game_def)
  have f: "filter (doused ?s (footprint ?p)) (footprint ?p) =
      filter (\<lambda>c. in_grid (grid_size s) c \<and> cell (grid s) (fst c) (snd c) = 2) (footprint ?p)"
    by (rule filter_cong) (auto simp: doused_def burning_def)
  show ?thesis
    using extinguish_fold[OF distinct_footprint wf, of ?p] assms(2) f
    by (simp add: move_player_fields, simp add: move_player_def Let_def doused_def burning_def)
qed

theorem move_player_extinguishes_witness:
  "wf_game (demo_game [[1, 1, 1], [1, 2, 1], [1, 1, 1]] (0, 0) [[0, 0, 0], [0, 0, 0], [0, 0, 0]])
   \<and> in_grid 3 (1, 1)
   \<and> extinguished (move_player {}
         (demo_game [[1, 1, 1], [1, 2, 1], [1, 1, 1]] (0, 0) [[0, 0, 0], [0, 0, 0], [0, 0, 0]])) = 1
   \<and> cell (grid (move_player {}
         (demo_game [[1, 1, 1], [1, 2, 1], [1, 1, 1]] (0, 0) [[0, 0, 0], [0, 0, 0], [0, 0, 0]]))) 1 1 = 0
   \<and> cell (extinguish_overlay (move_player {}
         (demo_game [[1, 1, 1], [1, 2, 1], [1, 1, 1]] (0, 0) [[0, 0, 0], [0, 0, 0], [0, 0, 0]]))) 1 1 = 2"
proof -
  let ?s = "demo_game [[1, 1, 1], [1, 2, 1], [1, 1, 1]] (0, 0) [[0, 0, 0], [0, 0, 0], [0, 0, 0]]"
  have wf: "wf_game ?s" by (simp add: wf_game_def demo_game_def wf_grid_def)
  have ig: "in_grid (grid_size ?s) (1, 1)" by (simp add: demo_game_def in_grid_def)
  have p: "player_pos (move_player {} ?s) = (0, 0)"
    by (simp add: move_player_fields new_pos_def demo_game_def)
  have fp: "footprint (0, 0) = [(0, 0), (0, 1), (0, 2), (1, 0), (1, 1), (1, 2), (2, 0), (2, 1), (2, 2)]"
    by (simp add: footprint_def upto_rec1)
  show ?thesis
    using move_player_extinguishes[OF wf ig, of "{}"] wf ig
    unfolding p fp
    by (simp add: demo_game_def in_grid_def cell_def)
qed

lemma wf_decay: "wf_grid n ov \<Longrightarrow> wf_grid n (decay ov)"
  by (simp add: wf_grid_def decay_def)

lemma game_step_fields:
  "grid_size (fst (ForestFireGame_step rnd (s, k))) = grid_size s
   \<and> extinguished (fst (ForestFireGame_step rnd (s, k))) = extinguished s
   \<and> player_pos (fst (ForestFireGame_step rnd (s, k))) = player_pos s
   \<and> extinguish_overlay (fst (ForestFireGame_step rnd (s, k))) = decay (extinguish_overlay s)"
  by (simp add: ForestFireGame_step_def Let_def)

lemma wf_game_step: "wf_game s \<Longrightarrow> wf_game (fst (ForestFireGame_step rnd (s, k)))"
  by (simp add: wf_game_def game_step_fields game_step_grid wf_step_assigned wf_decay)

lemma wf_game_move: "wf_game s \<Longrightarrow> wf_game (move_player d s)"
proof -
  assume "wf_game s"
  then have "wf_game (s\<lparr>player_pos := new_pos d (grid_size s) (player_pos s)\<rparr>)"
    by (simp add: wf_game_def)
  from extinguish_fold[OF distinct_footprint this] show ?thesis
    by (simp add: move_player_def Let_def)
qed

lemma tick_exits:
  assumes "wf_game s"
  shows "burned (fst (ForestFireGame_step rnd (s, k))) =
     burned s + fire_exits (grid_size s) (grid s) (grid (fst (ForestFireGame_step rnd (s, k))))"
proof -
  have wf: "wf_grid (grid_size s) (grid s)" using assms by (simp add: wf_game_def)
  have "filter (\<lambda>c. cell (grid s) (fst c) (snd c) = 2
            \<and> cell (grid (fst (ForestFireGame_step rnd (s, k)))) (fst c) (snd c) \<noteq> 2)
          (cells (grid_size s)) = filter (burning (grid s)) (cells (grid_size s))"
    by (rule filter_cong)
      (auto simp: in_grid_cells cell_game_step[OF wf] next_state_def burning_def)
  then show ?thesis by (simp add: game_step_burned[OF wf] fire_exits_def)
qed

lemma move_exits:
  assumes "wf_game s"
  shows "extinguished (move_player d s) =
     extinguished s + fire_exits (grid_size s) (grid s) (grid (move_player d s))"
proof -
  let ?p = "new_pos d (grid_size s) (player_pos s)"
  let ?s = "s\<lparr>player_pos := ?p\<rparr>"
  let ?n = "grid_size s"
  have wf: "wf_game ?s" using assms by (simp add: wf_game_def)
  note F = extinguish_fold[OF distinct_footprint wf, of ?p]
  have "filter (\<lambda>c. cell (grid s) (fst c) (snd c) = 2
            \<and> cell (grid (move_player d s)) (fst c) (snd c) \<noteq> 2) (cells ?n)
        = filter (doused ?s (footprint ?p)) (cells ?n)"
    using F by (intro filter_cong)
      (auto simp: in_grid_cells move_player_def Let_def doused_def burning_def)
  moreover have "length (filter (doused ?s (footprint ?p)) (cells ?n)) =
        length (filter (doused ?s (footprint ?p)) (footprint ?p))"
  proof -
    have "{x. doused ?s (footprint ?p) x} \<inter> set (cells ?n) =
          {x. doused ?s (footprint ?p) x} \<inter> set (footprint ?p)"
      by (auto simp: doused_def in_grid_cells)
    then show ?thesis
      by (simp add: distinct_length_filter distinct_cells distinct_footprint)
  qed
  ultimately show ?thesis using F
    by (simp add: fire_exits_def move_player_def Let_def)
qed


text \<open>
  C5. Along every interleaving of moves and steps, \<open>burned\<close> grows by the number of cells
  that left the fire state in a step and \<open>extinguished\<close> by the number of cells that left
  it in a move: every cell that leaves the fire state is counted once, in one counter.
\<close>

theorem counters_exclusive:
  assumes "wf_game s"
  shows "burned (fst (run rnd (s, k) ops)) = burned s + fst (exits rnd (s, k) ops)
     \<and> extinguished (fst (run rnd (s, k) ops)) = extinguished s + snd (exits rnd (s, k) ops)"
  using assms
proof (induction ops arbitrary: s k)
  case Nil
  then show ?case by (simp add: run_def)
next
  case (Cons opn ops)
  show ?case
  proof (cases opn)
    case (Move d)
    have wf': "wf_game (move_player d s)" using Cons.prems by (rule wf_game_move)
    from Cons.IH[OF wf', of k] show ?thesis
      using Move
      by (simp add: run_def Let_def move_exits[OF Cons.prems] move_player_fields)
  next
    case Tick
    obtain s' k' where sk: "ForestFireGame_step rnd (s, k) = (s', k')"
      by (cases "ForestFireGame_step rnd (s, k)")
    have wf': "wf_game s'" using wf_game_step[OF Cons.prems, of rnd k] sk by simp
    have b: "burned s' = burned s + fire_exits (grid_size s) (grid s) (grid s')"
      using tick_exits[OF Cons.prems, of rnd k] sk by simp
    have e: "extinguished s' = extinguished s"
      using game_step_fields[of rnd s k] sk by simp
    from Cons.IH[OF wf', of k'] show ?thesis
      using Tick sk b e by (simp add: run_def Let_def)
  qed
qed

theorem counters_exclusive_witness:
  "wf_game (demo_game [[2, 1], [1, 2]] (0, 0) [[0, 0], [0, 0]])
   \<and> burned (fst (run (\<lambda>_. 1)
         (demo_game [[2, 1], [1, 2]] (0, 0) [[0, 0], [0, 0]], 0) [Move {}, Tick])) = 0
   \<and> extinguished (fst (run (\<lambda>_. 1)
         (demo_game [[2, 1], [1, 2]] (0, 0) [[0, 0], [0, 0]], 0) [Move {}, Tick])) = 2
   \<and> fst (exits (\<lambda>_. 1)
         (demo_game [[2, 1], [1, 2]] (0, 0) [[0, 0], [0, 0]], 0) [Move {}, Tick]) = 0
   \<and> snd (exits (\<lambda>_. 1)
         (demo_game [[2, 1], [1, 2]] (0, 0) [[0, 0], [0, 0]], 0) [Move {}, Tick]) = 2"
proof -
  let ?s = "demo_game [[2, 1], [1, 2]] (0, 0) [[0, 0], [0, 0]]"
  have wf: "wf_game ?s" by (simp add: wf_game_def demo_game_def wf_grid_def)
  have r: "burned (fst (run (\<lambda>_. 1) (?s, 0) [Move {}, Tick])) = 0"
    "extinguished (fst (run (\<lambda>_. 1) (?s, 0) [Move {}, Tick])) = 2"
    by code_simp+
  have z: "burned ?s = 0" "extinguished ?s = 0" by (simp_all add: demo_game_def)
  from counters_exclusive[OF wf, of "\<lambda>_. 1" 0 "[Move {}, Tick]"]
  have "fst (exits (\<lambda>_. 1) (?s, 0) [Move {}, Tick]) = 0"
    "snd (exits (\<lambda>_. 1) (?s, 0) [Move {}, Tick]) = 2"
    unfolding r z by simp_all
  then show ?thesis using wf r by (intro conjI)
qed

section \<open>Frames\<close>

text \<open>
  C7. The decay of the overlay is part of \<open>step\<close>, which the loop of \<open>main\<close> calls on
  every fifth frame only: on a frame with counter 1 an overlay counter of 2 stays 2,
  on a frame with counter 0 it drops to 1.
\<close>

theorem frame_skips_decay:
  "extinguish_overlay (fst (frame (\<lambda>_. 1) {}
       (demo_game [[0, 0], [0, 0]] (0, 0) [[2, 0], [0, 0]], 0, 1))) = [[2, 0], [0, 0]]
   \<and> extinguish_overlay (fst (frame (\<lambda>_. 1) {}
       (demo_game [[0, 0], [0, 0]] (0, 0) [[2, 0], [0, 0]], 0, 0))) = [[1, 0], [0, 0]]"
  by (simp add: frame_def simulation_step_interval_def demo_game_def ForestFireGame_step_def
      decay_def Let_def)

end
